theory Spec2Isabelle
  imports Main "HOL-Library.Sublist" "HOL-Library.Multiset"
begin

section \<open>Python strings\<close>

text \<open>
  A Python \<open>str\<close> is modelled as a \<open>string\<close>, each \<open>char\<close> read as the code point of
  the same number (0 to 255). On such text \<open>str.isspace\<close>, \<open>str.lower\<close> and
  \<open>str.strip\<close> are exactly the functions below: the white space below 256 is
  9 to 13, 28 to 32, 133 and 160, and the letters with a lower-case form are
  A to Z and 192 to 222 without 215, each 32 below its lower-case form.
\<close>

definition isspace :: "char \<Rightarrow> bool" where
  "isspace c =
     (let n = (of_char c :: nat)
      in (9 \<le> n \<and> n \<le> 13) \<or> (28 \<le> n \<and> n \<le> 32) \<or> n = 133 \<or> n = 160)"

definition lower_char :: "char \<Rightarrow> char" where
  "lower_char c =
     (let n = (of_char c :: nat)
      in if (65 \<le> n \<and> n \<le> 90) \<or> (192 \<le> n \<and> n \<le> 222 \<and> n \<noteq> 215)
         then char_of (n + 32) else c)"

definition lower :: "string \<Rightarrow> string" where
  "lower s = map lower_char s"

definition strip :: "string \<Rightarrow> string" where
  "strip s = rev (dropWhile isspace (rev (dropWhile isspace s)))"

text \<open>\<open>sub in s\<close> for two strings: \<open>sub\<close> occurs in \<open>s\<close> as a contiguous run.\<close>

fun contains :: "string \<Rightarrow> string \<Rightarrow> bool" where
  "contains sub [] = (sub = [])"
| "contains sub (c # cs) = (prefix sub (c # cs) \<or> contains sub cs)"

text \<open>
  \<open>s.split(sep, 1)\<close> for a non-empty \<open>sep\<close>: \<open>find_sep\<close> looks for the first
  occurrence of \<open>sep\<close> and returns what is before and after it.
\<close>

fun find_sep :: "string \<Rightarrow> string \<Rightarrow> (string \<times> string) option" where
  "find_sep sep [] = None"
| "find_sep sep (c # cs) =
     (if prefix sep (c # cs) then Some ([], drop (length sep) (c # cs))
      else map_option (\<lambda>(h, t). (c # h, t)) (find_sep sep cs))"

definition split1 :: "string \<Rightarrow> string \<Rightarrow> string list" where
  "split1 sep s = (case find_sep sep s of None \<Rightarrow> [s] | Some (h, t) \<Rightarrow> [h, t])"

datatype py_error = IndexError

text \<open>\<open>xs[i]\<close> for an index that is not negative.\<close>

definition index :: "'a list \<Rightarrow> nat \<Rightarrow> py_error + 'a" where
  "index xs i = (if i < length xs then Inr (xs ! i) else Inl IndexError)"

text \<open>\<open>str(n)\<close> and the \<open>{n}\<close> of an f-string, for an integer.\<close>

definition digit_char :: "nat \<Rightarrow> char" where
  "digit_char d = char_of (48 + d)"

fun str_nat :: "nat \<Rightarrow> string" where
  "str_nat n = (if n < 10 then [digit_char n] else str_nat (n div 10) @ [digit_char (n mod 10)])"

declare str_nat.simps [simp del]

definition str_int :: "int \<Rightarrow> string" where
  "str_int i = (if i < 0 then CHR ''-'' # str_nat (nat (- i)) else str_nat (nat i))"


section \<open>Candidate URLs\<close>

definition build_candidate_urls :: "string \<Rightarrow> py_error + string list" where
  "build_candidate_urls raw0 =
     (let raw = strip raw0;
          lower = lower raw
      in if raw = [] then Inr []
         else if prefix ''http://'' lower then Inr [raw]
         else if prefix ''https://'' lower then
           (case index (split1 ''://'' raw) 1 of
              Inl e \<Rightarrow> Inl e
            | Inr tanpa_scheme \<Rightarrow> Inr [raw, ''http://'' @ tanpa_scheme])
         else Inr [''https://'' @ raw, ''http://'' @ raw])"


section \<open>Content classification\<close>

definition PARKING_KEYWORDS :: "string list" where
  "PARKING_KEYWORDS =
     [''buy this domain'', ''this domain is for sale'',
      ''domain is parked'', ''parkingcrew'', ''sedo'',
      ''afternic'', ''dan.com'', ''expired domain'',
      ''has expired'', ''renew it now'']"

definition wp_markers :: "string list" where
  \<open>wp_markers =
     [''wp-content'',
      ''wp-includes'',
      ''wp-json'',
      ''content="wordpress'',
      ''generator" content="wordpress'']\<close>

definition is_wordpress :: "string \<Rightarrow> bool" where
  "is_wordpress html_text =
     (if html_text = [] then False
      else let lower = lower html_text
           in list_ex (\<lambda>m. contains m lower) wp_markers)"

definition is_parking_page :: "string \<Rightarrow> bool" where
  "is_parking_page html_text =
     (if html_text = [] then False
      else let lower = lower html_text
           in list_ex (\<lambda>k. contains k lower) PARKING_KEYWORDS)"


section \<open>Exceptions, responses and outcomes\<close>

text \<open>
  An exception of class \<open>Exception\<close> is modelled by its message, the text that
  \<open>str(exc)\<close> returns. \<open>last_exc\<close> holds \<open>None\<close> or an exception, and \<open>str(None)\<close>
  is the text \<open>None\<close>.
\<close>

datatype exn = Exn string

definition str_exc :: "exn option \<Rightarrow> string" where
  "str_exc e = (case e of None \<Rightarrow> ''None'' | Some (Exn m) \<Rightarrow> m)"

text \<open>
  The four values every classifier returns: status, http_status, final_url, notes.
\<close>

type_synonym classification = "string \<times> int option \<times> string option \<times> string"

text \<open>
  What the classifiers read of an HTTP response: \<open>resp.status_code\<close>,
  \<open>str(resp.url)\<close>, and \<open>resp.text\<close>, which either raises or gives the body.
\<close>

record response =
  status_code :: int
  resp_url :: string
  resp_text :: "exn + string"

text \<open>The dict that \<open>check_one_domain\<close> returns; its key \<open>notes\<close> is the field \<open>out_notes\<close>.\<close>

record outcome =
  domain :: string
  status :: string
  http_status :: "int option"
  final_url :: "string option"
  out_notes :: string


section \<open>Classifiers\<close>

definition classify_transport_error :: "exn option \<Rightarrow> classification" where
  "classify_transport_error exc =
     (let msg = lower (str_exc exc)
      in if contains ''name or service not known'' msg \<or> contains ''nxdomain'' msg
            \<or> contains ''not known'' msg
         then (''PARKED_ATAU_MUNGKIN_EXPIRED'', None, None, ''dns_error: '' @ msg)
         else if contains ''timed out'' msg \<or> contains ''timeout'' msg
         then (''ERROR_TIDAK_BISA_DIBUKA'', None, None, ''timeout: '' @ msg)
         else if contains ''ssl'' msg \<or> contains ''certificate'' msg
         then (''ERROR_TIDAK_BISA_DIBUKA'', None, None, ''ssl_error: '' @ msg)
         else (''ERROR_TIDAK_BISA_DIBUKA'', None, None, msg))"

definition text_snippet :: "response \<Rightarrow> string" where
  "text_snippet resp = (case resp_text resp of Inl exc \<Rightarrow> [] | Inr t \<Rightarrow> take 4000 t)"

definition classify_response :: "response \<Rightarrow> string \<Rightarrow> classification" where
  "classify_response resp used_scheme =
     (let http_status = status_code resp;
          final_url = resp_url resp;
          text_snippet = text_snippet resp
      in if 200 \<le> http_status \<and> http_status < 300 then
           (if is_wordpress text_snippet
            then (''AKTIF_WORDPRESS'', Some http_status, Some final_url,
                  ''wp_markers_found ('' @ used_scheme @ '')'')
            else if is_parking_page text_snippet
            then (''PARKED_ATAU_MUNGKIN_EXPIRED'', Some http_status, Some final_url,
                  ''parking_keywords_found ('' @ used_scheme @ '')'')
            else (''AKTIF_NON_WORDPRESS'', Some http_status, Some final_url,
                  ''no_wp_markers ('' @ used_scheme @ '')''))
         else if 300 \<le> http_status \<and> http_status < 400 then
           (''AKTIF_NON_WORDPRESS'', Some http_status, Some final_url,
            ''3xx_status ('' @ used_scheme @ '')'')
         else if 400 \<le> http_status \<and> http_status < 600 then
           (if is_parking_page text_snippet
            then (''PARKED_ATAU_MUNGKIN_EXPIRED'', Some http_status, Some final_url,
                  ''http_'' @ str_int http_status @ ''_parking ('' @ used_scheme @ '')'')
            else (''ERROR_TIDAK_BISA_DIBUKA'', Some http_status, Some final_url,
                  ''http_'' @ str_int http_status @ '' ('' @ used_scheme @ '')''))
         else (''ERROR_TIDAK_BISA_DIBUKA'', Some http_status, Some final_url,
               ''unexpected_status ('' @ used_scheme @ '')''))"


section \<open>Probing one domain\<close>

text \<open>
  \<open>client.get(url, ...)\<close> either raises an exception or returns a response; the client
  is a function from the URL to one of the two. The loop over the candidates returns
  the URLs it requested, in order, beside how it ended: with the outcome it returned
  from inside the loop, or exhausted, with the value of \<open>last_exc\<close>.
\<close>

type_synonym client = "string \<Rightarrow> exn + response"

datatype loop_exit = Returned outcome | Exhausted "exn option"

definition make_outcome :: "string \<Rightarrow> classification \<Rightarrow> outcome" where
  "make_outcome d c =
     (case c of (st, hs, fu, n) \<Rightarrow>
        \<lparr>domain = d, status = st, http_status = hs, final_url = fu, out_notes = n\<rparr>)"

definition used_scheme_of :: "string \<Rightarrow> string" where
  "used_scheme_of url = (if prefix ''https://'' (lower url) then ''https'' else ''http'')"

fun for_url :: "client \<Rightarrow> string \<Rightarrow> string list \<Rightarrow> exn option \<Rightarrow> string list \<times> loop_exit" where
  "for_url get d [] last_exc = ([], Exhausted last_exc)"
| "for_url get d (url # urls) last_exc =
     (let used_scheme = used_scheme_of url
      in case get url of
           Inr resp \<Rightarrow> ([url], Returned (make_outcome d (classify_response resp used_scheme)))
         | Inl exc \<Rightarrow>
             (case for_url get d urls (Some exc) of (reqs, ex) \<Rightarrow> (url # reqs, ex)))"

text \<open>
  \<open>check_one_domain\<close> returns the requests it issued and \<open>None\<close> or the outcome, or
  raises what \<open>build_candidate_urls\<close> raises.
\<close>

definition check_one_domain :: "client \<Rightarrow> string \<Rightarrow> py_error + (string list \<times> outcome option)" where
  "check_one_domain get domain0 =
     (let domain = strip domain0
      in if domain = [] \<or> prefix ''#'' domain then Inr ([], None)
         else case build_candidate_urls domain of
                Inl e \<Rightarrow> Inl e
              | Inr urls \<Rightarrow>
                  (case for_url get domain urls None of
                     (reqs, Returned out) \<Rightarrow> Inr (reqs, Some out)
                   | (reqs, Exhausted last_exc) \<Rightarrow>
                       Inr (reqs, Some (make_outcome domain (classify_transport_error last_exc)))))"


section \<open>Running over the list\<close>

text \<open>
  \<open>run\<close> reads the lines of the file, keeps the trimmed non-empty ones, starts one
  worker for each and appends every result that is not \<open>None\<close>. It returns, beside the
  results, the log of the workers: the argument of each and the requests it issued.
  Both are listed here in the order of the input; \<open>as_completed\<close> yields the results in
  the order in which the workers finish, which is a permutation of it.
\<close>

definition read_domains :: "string list \<Rightarrow> string list" where
  "read_domains lines = map strip (filter (\<lambda>line. strip line \<noteq> []) lines)"

fun gather :: "client \<Rightarrow> string list \<Rightarrow> py_error + ((string \<times> string list) list \<times> outcome list)" where
  "gather get [] = Inr ([], [])"
| "gather get (d # ds) =
     (case check_one_domain get d of
        Inl e \<Rightarrow> Inl e
      | Inr (reqs, res) \<Rightarrow>
          (case gather get ds of
             Inl e \<Rightarrow> Inl e
           | Inr (log, results) \<Rightarrow>
               Inr ((d, reqs) # log, (case res of None \<Rightarrow> results | Some r \<Rightarrow> r # results))))"

definition run :: "client \<Rightarrow> string list \<Rightarrow> py_error + ((string \<times> string list) list \<times> outcome list)" where
  "run get lines = gather get (read_domains lines)"

text \<open>A line that produces no outcome: empty or only white space, or a comment.\<close>

definition skipped :: "string \<Rightarrow> bool" where
  "skipped line = (strip line = [] \<or> prefix ''#'' (strip line))"


section \<open>Clients for the examples\<close>

definition refusing :: client where
  "refusing u = Inl (Exn ''All connection attempts failed'')"

definition http_only :: client where
  "http_only u =
     (if prefix ''https://'' u then Inl (Exn ''[SSL: CERTIFICATE_VERIFY_FAILED]'')
      else Inr \<lparr>status_code = 404, resp_url = u @ ''/'', resp_text = Inr ''Not Found''\<rparr>)"

definition error_page :: client where
  "error_page u = Inr \<lparr>status_code = 500, resp_url = u @ ''/'', resp_text = Inr ''Internal Server Error''\<rparr>"


section \<open>Facts about the string functions\<close>

lemma lower_char_changed:
  "lower_char c \<noteq> c \<Longrightarrow>
     (97 \<le> (of_char (lower_char c) :: nat) \<and> (of_char (lower_char c) :: nat) \<le> 122) \<or>
     (224 \<le> (of_char (lower_char c) :: nat) \<and> (of_char (lower_char c) :: nat) \<le> 254)"
  by (auto simp: lower_char_def Let_def split: if_splits)

lemma lower_char_colon: "lower_char c = CHR '':'' \<longleftrightarrow> c = CHR '':''"
  using lower_char_changed [of c] by (cases "lower_char c = c") (auto simp: lower_char_def)

lemma lower_char_slash: "lower_char c = CHR ''/'' \<longleftrightarrow> c = CHR ''/''"
  using lower_char_changed [of c] by (cases "lower_char c = c") (auto simp: lower_char_def)

lemma map_prefix_Cons:
  assumes "prefix (d # ds) (map f xs)"
  obtains c cs where "xs = c # cs" "f c = d" "prefix ds (map f cs)"
  using assms by (cases xs) auto

lemma lower_https_shape:
  assumes "prefix ''https://'' (lower raw)"
  obtains c0 c1 c2 c3 c4 rest where
    "raw = c0 # c1 # c2 # c3 # c4 # CHR '':'' # CHR ''/'' # CHR ''/'' # rest"
    "c0 \<noteq> CHR '':''" "c1 \<noteq> CHR '':''" "c2 \<noteq> CHR '':''" "c3 \<noteq> CHR '':''" "c4 \<noteq> CHR '':''"
proof -
  from assms have p0: "prefix ''https://'' (map lower_char raw)"
    by (simp add: lower_def)
  from p0 obtain c0 r0 where r0: "raw = c0 # r0" "lower_char c0 = CHR ''h''"
    and p1: "prefix ''ttps://'' (map lower_char r0)" by (rule map_prefix_Cons)
  from p1 obtain c1 r1 where r1: "r0 = c1 # r1" "lower_char c1 = CHR ''t''"
    and p2: "prefix ''tps://'' (map lower_char r1)" by (rule map_prefix_Cons)
  from p2 obtain c2 r2 where r2: "r1 = c2 # r2" "lower_char c2 = CHR ''t''"
    and p3: "prefix ''ps://'' (map lower_char r2)" by (rule map_prefix_Cons)
  from p3 obtain c3 r3 where r3: "r2 = c3 # r3" "lower_char c3 = CHR ''p''"
    and p4: "prefix ''s://'' (map lower_char r3)" by (rule map_prefix_Cons)
  from p4 obtain c4 r4 where r4: "r3 = c4 # r4" "lower_char c4 = CHR ''s''"
    and p5: "prefix ''://'' (map lower_char r4)" by (rule map_prefix_Cons)
  from p5 obtain c5 r5 where r5: "r4 = c5 # r5" "lower_char c5 = CHR '':''"
    and p6: "prefix ''//'' (map lower_char r5)" by (rule map_prefix_Cons)
  from p6 obtain c6 r6 where r6: "r5 = c6 # r6" "lower_char c6 = CHR ''/''"
    and p7: "prefix ''/'' (map lower_char r6)" by (rule map_prefix_Cons)
  from p7 obtain c7 r7 where r7: "r6 = c7 # r7" "lower_char c7 = CHR ''/''"
    by (rule map_prefix_Cons)
  have e: "c5 = CHR '':''" "c6 = CHR ''/''" "c7 = CHR ''/''"
    using r5(2) r6(2) r7(2) by (simp_all add: lower_char_colon lower_char_slash)
  have n0: "c0 \<noteq> CHR '':''" using r0(2) lower_char_colon [of c0] by auto
  have n1: "c1 \<noteq> CHR '':''" using r1(2) lower_char_colon [of c1] by auto
  have n2: "c2 \<noteq> CHR '':''" using r2(2) lower_char_colon [of c2] by auto
  have n3: "c3 \<noteq> CHR '':''" using r3(2) lower_char_colon [of c3] by auto
  have n4: "c4 \<noteq> CHR '':''" using r4(2) lower_char_colon [of c4] by auto
  have "raw = c0 # c1 # c2 # c3 # c4 # CHR '':'' # CHR ''/'' # CHR ''/'' # r7"
    by (simp add: r0(1) r1(1) r2(1) r3(1) r4(1) r5(1) r6(1) r7(1) e)
  then show thesis using n0 n1 n2 n3 n4 by (rule that)
qed

lemma split1_https:
  assumes "prefix ''https://'' (lower raw)"
  shows "split1 ''://'' raw = [take 5 raw, drop 8 raw]"
proof -
  from assms obtain c0 c1 c2 c3 c4 rest where
    "raw = c0 # c1 # c2 # c3 # c4 # CHR '':'' # CHR ''/'' # CHR ''/'' # rest"
    "c0 \<noteq> CHR '':''" "c1 \<noteq> CHR '':''" "c2 \<noteq> CHR '':''" "c3 \<noteq> CHR '':''" "c4 \<noteq> CHR '':''"
    by (rule lower_https_shape)
  then show ?thesis by (simp add: split1_def)
qed

lemma https_not_http: "prefix ''https://'' s \<Longrightarrow> \<not> prefix ''http://'' s"
  by (auto simp: prefix_def)

lemma dropWhile_strip: "dropWhile isspace (strip s) = strip s"
proof (cases "strip s")
  case Nil
  then show ?thesis by simp
next
  case (Cons c cs)
  let ?u = "dropWhile isspace s"
  have "suffix (dropWhile isspace (rev ?u)) (rev ?u)"
    by (rule suffix_dropWhile)
  then have "prefix (strip s) ?u"
    by (simp add: strip_def suffix_to_prefix)
  with Cons obtain zs where u: "?u = c # zs"
    by (auto simp: prefix_def)
  then have "\<not> isspace c"
    using hd_dropWhile [of isspace s] by auto
  with Cons show ?thesis by simp
qed

lemma strip_strip: "strip (strip s) = strip s"
proof -
  have "dropWhile isspace (rev (strip s)) = rev (strip s)"
    by (simp add: strip_def dropWhile_idem)
  then show ?thesis
    by (simp add: strip_def [of "strip s"] dropWhile_strip)
qed

lemma build_candidate_urls_eq:
  "build_candidate_urls raw =
     Inr (if strip raw = [] then []
          else if prefix ''http://'' (lower (strip raw)) then [strip raw]
          else if prefix ''https://'' (lower (strip raw))
            then [strip raw, ''http://'' @ drop 8 (strip raw)]
          else [''https://'' @ strip raw, ''http://'' @ strip raw])"
  by (simp add: build_candidate_urls_def Let_def index_def split1_https)


section \<open>The candidate builder\<close>

lemma strip_blank: "strip ''   '' = []"
  by (simp add: strip_def isspace_def)

lemma strip_http_upper: "strip '' HTTP://A.test '' = ''HTTP://A.test''"
  by (simp add: strip_def isspace_def)

lemma strip_https_upper: "strip ''  HTTPS://A.test/x  '' = ''HTTPS://A.test/x''"
  by (simp add: strip_def isspace_def)

lemma strip_b_test: "strip ''b.test'' = ''b.test''"
  by (simp add: strip_def isspace_def)

lemma lower_http_upper: "lower ''HTTP://A.test'' = ''http://a.test''"
  by code_simp

lemma lower_https_upper: "lower ''HTTPS://A.test/x'' = ''https://a.test/x''"
  by code_simp

lemma lower_b_test: "lower ''b.test'' = ''b.test''"
  by code_simp

text \<open>
  Claim C2. With \<open>t\<close> the trimmed input and the tests made on \<open>t\<close> in lower case,
  \<open>build_candidate_urls\<close> returns the empty list when \<open>t\<close> is empty, \<open>[t]\<close> when it
  starts with \<open>http://\<close>, \<open>[t, http:// followed by t without its first eight
  characters]\<close> when it starts with \<open>https://\<close>, and \<open>[https://t, http://t]\<close> when it
  starts with neither; it never raises.
\<close>

theorem build_candidate_urls_rules:
  "(strip raw = [] \<longrightarrow> build_candidate_urls raw = Inr []) \<and>
   (strip raw \<noteq> [] \<and> prefix ''http://'' (lower (strip raw)) \<longrightarrow>
      build_candidate_urls raw = Inr [strip raw]) \<and>
   (prefix ''https://'' (lower (strip raw)) \<longrightarrow>
      build_candidate_urls raw = Inr [strip raw, ''http://'' @ drop (length ''https://'') (strip raw)]) \<and>
   (strip raw \<noteq> [] \<and> \<not> prefix ''http://'' (lower (strip raw))
      \<and> \<not> prefix ''https://'' (lower (strip raw)) \<longrightarrow>
      build_candidate_urls raw = Inr [''https://'' @ strip raw, ''http://'' @ strip raw])"
proof -
  have "prefix ''https://'' (lower (strip raw)) \<Longrightarrow> strip raw \<noteq> []"
    by (auto simp: lower_def)
  moreover have "length ''https://'' = 8"
    by simp
  ultimately show ?thesis
    by (auto simp only: build_candidate_urls_eq dest: https_not_http split: if_splits)
qed

theorem build_candidate_urls_rules_witness:
  "build_candidate_urls ''   '' = Inr [] \<and>
   build_candidate_urls '' HTTP://A.test '' = Inr [''HTTP://A.test''] \<and>
   build_candidate_urls ''  HTTPS://A.test/x  '' = Inr [''HTTPS://A.test/x'', ''http://A.test/x''] \<and>
   build_candidate_urls ''b.test'' = Inr [''https://b.test'', ''http://b.test'']"
  using build_candidate_urls_rules [of "''   ''"]
    build_candidate_urls_rules [of "'' HTTP://A.test ''"]
    build_candidate_urls_rules [of "''  HTTPS://A.test/x  ''"]
    build_candidate_urls_rules [of "''b.test''"]
  by (simp add: strip_blank strip_http_upper strip_https_upper strip_b_test
      lower_http_upper lower_https_upper lower_b_test)


section \<open>Facts about the content predicates and the decimal form\<close>

lemma contains_sublist: "contains sub s \<longleftrightarrow> sublist sub s"
  by (induction s) (auto simp: sublist_Cons_right)

lemma lower_Nil: "lower [] = []"
  by (simp add: lower_def)

lemma markers_nonempty: "m \<in> set wp_markers \<Longrightarrow> m \<noteq> []"
  by (auto simp: wp_markers_def)

lemma keywords_nonempty: "k \<in> set PARKING_KEYWORDS \<Longrightarrow> k \<noteq> []"
  by (auto simp: PARKING_KEYWORDS_def)

lemma is_wordpress_iff:
  "is_wordpress t \<longleftrightarrow> (\<exists>m \<in> set wp_markers. contains m (lower t))"
proof (cases "t = []")
  case True
  then show ?thesis
    using markers_nonempty by (auto simp: is_wordpress_def lower_Nil)
next
  case False
  then show ?thesis
    by (simp add: is_wordpress_def list_ex_iff)
qed

lemma is_parking_page_iff:
  "is_parking_page t \<longleftrightarrow> (\<exists>k \<in> set PARKING_KEYWORDS. contains k (lower t))"
proof (cases "t = []")
  case True
  then show ?thesis
    using keywords_nonempty by (auto simp: is_parking_page_def lower_Nil)
next
  case False
  then show ?thesis
    by (simp add: is_parking_page_def list_ex_iff)
qed

lemma str_nat_three_digits:
  assumes "100 \<le> n" "n < 1000"
  shows "str_nat n = [digit_char (n div 100), digit_char (n div 10 mod 10), digit_char (n mod 10)]"
proof -
  have a: "str_nat n = str_nat (n div 10) @ [digit_char (n mod 10)]"
    using assms by (subst str_nat.simps) simp
  have b: "str_nat (n div 10) = str_nat (n div 10 div 10) @ [digit_char (n div 10 mod 10)]"
    using assms by (subst str_nat.simps) simp
  have c: "str_nat (n div 10 div 10) = [digit_char (n div 10 div 10)]"
    using assms by (subst str_nat.simps) simp
  have "n div 10 div 10 = n div 100"
    by (simp add: div_mult2_eq [symmetric])
  with a b c show ?thesis by simp
qed

lemma str_int_three_digits:
  assumes "100 \<le> c" "c < 1000"
  shows "str_int c = [digit_char (nat c div 100), digit_char (nat c div 10 mod 10), digit_char (nat c mod 10)]"
  using assms by (simp add: str_int_def str_nat_three_digits)


section \<open>The transport-error classifier\<close>

text \<open>
  Claim C5. An exception whose message, in lower case, contains
  \<open>name or service not known\<close>, \<open>nxdomain\<close> or \<open>not known\<close> is classified as
  \<open>PARKED_ATAU_MUNGKIN_EXPIRED\<close>, with no http_status and no final_url, and with the
  notes \<open>dns_error: \<close> followed by the message in lower case; nothing is asked of
  the timeout and ssl patterns, so the DNS branch wins when they match too.
\<close>

theorem dns_error_first:
  assumes "contains ''name or service not known'' (lower m) \<or> contains ''nxdomain'' (lower m)
           \<or> contains ''not known'' (lower m)"
  shows "classify_transport_error (Some (Exn m)) =
           (''PARKED_ATAU_MUNGKIN_EXPIRED'', None, None, ''dns_error: '' @ lower m)"
  using assms by (simp add: classify_transport_error_def str_exc_def Let_def)

lemma lower_dns_msg: "lower ''SSL handshake Timeout: NXDOMAIN'' = ''ssl handshake timeout: nxdomain''"
  by code_simp

lemma dns_msg_patterns:
  "contains ''nxdomain'' ''ssl handshake timeout: nxdomain'' \<and>
   contains ''timeout'' ''ssl handshake timeout: nxdomain'' \<and>
   contains ''ssl'' ''ssl handshake timeout: nxdomain''"
  by code_simp

theorem dns_error_first_witness:
  "contains ''timeout'' (lower ''SSL handshake Timeout: NXDOMAIN'') \<and>
   contains ''ssl'' (lower ''SSL handshake Timeout: NXDOMAIN'') \<and>
   classify_transport_error (Some (Exn ''SSL handshake Timeout: NXDOMAIN'')) =
     (''PARKED_ATAU_MUNGKIN_EXPIRED'', None, None, ''dns_error: ssl handshake timeout: nxdomain'')"
  using dns_error_first [of "''SSL handshake Timeout: NXDOMAIN''"] dns_msg_patterns
  by (simp add: lower_dns_msg)

text \<open>
  Claim C6, amended. An exception whose message matches none of the DNS, timeout and
  ssl patterns is classified as \<open>ERROR_TIDAK_BISA_DIBUKA\<close> with the message in lower
  case as its notes.
\<close>

theorem other_error_lowered:
  assumes "\<not> contains ''name or service not known'' (lower m)" "\<not> contains ''nxdomain'' (lower m)"
    "\<not> contains ''not known'' (lower m)"
    "\<not> contains ''timed out'' (lower m)" "\<not> contains ''timeout'' (lower m)"
    "\<not> contains ''ssl'' (lower m)" "\<not> contains ''certificate'' (lower m)"
  shows "classify_transport_error (Some (Exn m)) = (''ERROR_TIDAK_BISA_DIBUKA'', None, None, lower m)"
  using assms by (simp add: classify_transport_error_def str_exc_def Let_def)


lemma lower_refused: "lower ''Connection Refused'' = ''connection refused''"
  by code_simp

lemma refused_patterns:
  "\<not> contains ''name or service not known'' ''connection refused'' \<and>
   \<not> contains ''nxdomain'' ''connection refused'' \<and>
   \<not> contains ''not known'' ''connection refused'' \<and>
   \<not> contains ''timed out'' ''connection refused'' \<and>
   \<not> contains ''timeout'' ''connection refused'' \<and>
   \<not> contains ''ssl'' ''connection refused'' \<and>
   \<not> contains ''certificate'' ''connection refused''"
  by code_simp

theorem other_error_lowered_witness:
  "classify_transport_error (Some (Exn ''Connection Refused'')) =
     (''ERROR_TIDAK_BISA_DIBUKA'', None, None, ''connection refused'')"
  using other_error_lowered [of "''Connection Refused''"] refused_patterns
  by (simp add: lower_refused)

theorem raw_message_counterexample:
  "\<not> contains ''name or service not known'' (lower ''Connection Refused'') \<and>
   \<not> contains ''nxdomain'' (lower ''Connection Refused'') \<and>
   \<not> contains ''not known'' (lower ''Connection Refused'') \<and>
   \<not> contains ''timed out'' (lower ''Connection Refused'') \<and>
   \<not> contains ''timeout'' (lower ''Connection Refused'') \<and>
   \<not> contains ''ssl'' (lower ''Connection Refused'') \<and>
   \<not> contains ''certificate'' (lower ''Connection Refused'') \<and>
   snd (snd (snd (classify_transport_error (Some (Exn ''Connection Refused''))))) \<noteq> ''Connection Refused''"
  using refused_patterns
  by (simp add: lower_refused classify_transport_error_def str_exc_def)

section \<open>The response classifier\<close>

text \<open>
  Claim C3. A response with a status from 200 to 299 whose body has a WordPress
  marker in the lower-case form of its first 4000 characters is classified as
  \<open>AKTIF_WORDPRESS\<close> with the notes \<open>wp_markers_found (scheme)\<close>, whatever else the body
  contains.
\<close>

theorem wordpress_first:
  assumes "200 \<le> status_code resp" "status_code resp < 300"
    and "resp_text resp = Inr body"
    and "m \<in> set wp_markers" "contains m (lower (take 4000 body))"
  shows "classify_response resp used_scheme =
           (''AKTIF_WORDPRESS'', Some (status_code resp), Some (resp_url resp),
            ''wp_markers_found ('' @ used_scheme @ '')'')"
proof -
  have "is_wordpress (text_snippet resp)"
    using assms(3-5) by (auto simp: is_wordpress_iff text_snippet_def)
  with assms(1,2) show ?thesis
    by (simp add: classify_response_def Let_def)
qed

lemma wp_body_marker:
  "contains ''wp-content'' (lower (take 4000 ''<link href=/WP-Content/x.css> This Domain Is For Sale''))"
  by code_simp

lemma wp_body_parking:
  "is_parking_page (take 4000 ''<link href=/WP-Content/x.css> This Domain Is For Sale'')"
  by code_simp

theorem wordpress_first_witness:
  "is_parking_page (take 4000 ''<link href=/WP-Content/x.css> This Domain Is For Sale'') \<and>
   classify_response
     \<lparr>status_code = 200, resp_url = ''https://a.test/'',
      resp_text = Inr ''<link href=/WP-Content/x.css> This Domain Is For Sale''\<rparr> ''https'' =
     (''AKTIF_WORDPRESS'', Some 200, Some ''https://a.test/'', ''wp_markers_found (https)'')"
  using wordpress_first [of "\<lparr>status_code = 200, resp_url = ''https://a.test/'',
      resp_text = Inr ''<link href=/WP-Content/x.css> This Domain Is For Sale''\<rparr>"
      "''<link href=/WP-Content/x.css> This Domain Is For Sale''" "''wp-content''" "''https''"]
    wp_body_marker wp_body_parking
  by (simp add: wp_markers_def)

text \<open>
  Claim C4. A response with a status from 400 to 599 is classified as
  \<open>PARKED_ATAU_MUNGKIN_EXPIRED\<close> with the notes \<open>http_code_parking (scheme)\<close> when a
  parking keyword occurs in the lower-case form of the first 4000 characters of its
  body, and as \<open>ERROR_TIDAK_BISA_DIBUKA\<close> with the notes \<open>http_code (scheme)\<close>
  otherwise; http_status is the status code, final_url the URL of the response, and
  the code is written as its three decimal digits.
\<close>

theorem http_error_status:
  assumes "400 \<le> status_code resp" "status_code resp < 600"
  shows "classify_response resp used_scheme =
           (if \<exists>body k. resp_text resp = Inr body \<and> k \<in> set PARKING_KEYWORDS
                 \<and> contains k (lower (take 4000 body))
            then (''PARKED_ATAU_MUNGKIN_EXPIRED'', Some (status_code resp), Some (resp_url resp),
                  ''http_'' @ str_int (status_code resp) @ ''_parking ('' @ used_scheme @ '')'')
            else (''ERROR_TIDAK_BISA_DIBUKA'', Some (status_code resp), Some (resp_url resp),
                  ''http_'' @ str_int (status_code resp) @ '' ('' @ used_scheme @ '')''))
         \<and> str_int (status_code resp) =
             [digit_char (nat (status_code resp) div 100),
              digit_char (nat (status_code resp) div 10 mod 10),
              digit_char (nat (status_code resp) mod 10)]"
proof -
  have "is_parking_page (text_snippet resp) \<longleftrightarrow>
          (\<exists>body k. resp_text resp = Inr body \<and> k \<in> set PARKING_KEYWORDS
             \<and> contains k (lower (take 4000 body)))"
  proof (cases "resp_text resp")
    case (Inl e)
    then show ?thesis
      using keywords_nonempty by (auto simp: is_parking_page_iff text_snippet_def lower_Nil)
  next
    case (Inr t)
    then show ?thesis
      by (auto simp: is_parking_page_iff text_snippet_def)
  qed
  moreover have "\<not> (200 \<le> status_code resp \<and> status_code resp < 300)"
    "\<not> (300 \<le> status_code resp \<and> status_code resp < 400)"
    using assms by auto
  ultimately have "classify_response resp used_scheme =
           (if \<exists>body k. resp_text resp = Inr body \<and> k \<in> set PARKING_KEYWORDS
                 \<and> contains k (lower (take 4000 body))
            then (''PARKED_ATAU_MUNGKIN_EXPIRED'', Some (status_code resp), Some (resp_url resp),
                  ''http_'' @ str_int (status_code resp) @ ''_parking ('' @ used_scheme @ '')'')
            else (''ERROR_TIDAK_BISA_DIBUKA'', Some (status_code resp), Some (resp_url resp),
                  ''http_'' @ str_int (status_code resp) @ '' ('' @ used_scheme @ '')''))"
    using assms by (simp add: classify_response_def Let_def)
  moreover have "str_int (status_code resp) =
             [digit_char (nat (status_code resp) div 100),
              digit_char (nat (status_code resp) div 10 mod 10),
              digit_char (nat (status_code resp) mod 10)]"
    using assms by (intro str_int_three_digits) auto
  ultimately show ?thesis by (rule conjI)
qed

lemma parking_ex_iff:
  "(\<exists>k. k \<in> set PARKING_KEYWORDS \<and> contains k (lower t)) \<longleftrightarrow> is_parking_page t"
  by (auto simp: is_parking_page_iff)

lemma not_found_parking: "\<not> is_parking_page ''Not Found''"
  by code_simp

lemma expired_parking: "is_parking_page ''This Domain Has Expired''"
  by code_simp

lemma str_int_404: "str_int 404 = ''404''"
  by code_simp

lemma str_int_503: "str_int 503 = ''503''"
  by code_simp

theorem http_error_status_witness:
  "classify_response \<lparr>status_code = 404, resp_url = ''http://a.test/'', resp_text = Inr ''Not Found''\<rparr> ''http'' =
     (''ERROR_TIDAK_BISA_DIBUKA'', Some 404, Some ''http://a.test/'', ''http_404 (http)'') \<and>
   classify_response \<lparr>status_code = 503, resp_url = ''https://b.test/'',
      resp_text = Inr ''This Domain Has Expired''\<rparr> ''https'' =
     (''PARKED_ATAU_MUNGKIN_EXPIRED'', Some 503, Some ''https://b.test/'', ''http_503_parking (https)'')"
  using http_error_status [of "\<lparr>status_code = 404, resp_url = ''http://a.test/'', resp_text = Inr ''Not Found''\<rparr>" "''http''"]
    http_error_status [of "\<lparr>status_code = 503, resp_url = ''https://b.test/'',
      resp_text = Inr ''This Domain Has Expired''\<rparr>" "''https''"]
    not_found_parking expired_parking
  by (simp add: parking_ex_iff str_int_404 str_int_503)

text \<open>
  Claim C9. When reading the body of a response raises, the snippet is empty, both
  content predicates are false, the response is classified as the same response with
  an empty body is, and a status from 200 to 299 gives \<open>AKTIF_NON_WORDPRESS\<close>.
\<close>

theorem unreadable_body:
  assumes "resp_text resp = Inl exc"
  shows "\<not> is_wordpress (text_snippet resp) \<and> \<not> is_parking_page (text_snippet resp) \<and>
         classify_response resp used_scheme = classify_response (resp\<lparr>resp_text := Inr []\<rparr>) used_scheme \<and>
         (200 \<le> status_code resp \<and> status_code resp < 300 \<longrightarrow>
            classify_response resp used_scheme =
              (''AKTIF_NON_WORDPRESS'', Some (status_code resp), Some (resp_url resp),
               ''no_wp_markers ('' @ used_scheme @ '')''))"
  using assms
  by (simp add: classify_response_def Let_def text_snippet_def is_wordpress_def is_parking_page_def)

theorem unreadable_body_witness:
  "classify_response \<lparr>status_code = 200, resp_url = ''https://a.test/'',
      resp_text = Inl (Exn ''codec cannot decode byte'')\<rparr> ''https'' =
     (''AKTIF_NON_WORDPRESS'', Some 200, Some ''https://a.test/'', ''no_wp_markers (https)'')"
  using unreadable_body [of "\<lparr>status_code = 200, resp_url = ''https://a.test/'',
      resp_text = Inl (Exn ''codec cannot decode byte'')\<rparr>" "Exn ''codec cannot decode byte''" "''https''",
      THEN conjunct2, THEN conjunct2, THEN conjunct2]
  by simp


section \<open>The loop over the candidates\<close>

text \<open>
  The candidates of one domain are pairwise distinct, so a probe never asks the client
  for the same URL twice and a function of the URL is enough to model the client.
\<close>

lemma candidates_distinct:
  assumes "build_candidate_urls raw = Inr urls"
  shows "distinct urls"
proof (cases "prefix ''https://'' (lower (strip raw))")
  case True
  then obtain c0 c1 c2 c3 c4 rest where
    "strip raw = c0 # c1 # c2 # c3 # c4 # CHR '':'' # CHR ''/'' # CHR ''/'' # rest"
    "c4 \<noteq> CHR '':''"
    by (rule lower_https_shape)
  with True assms show ?thesis
    by (auto simp: build_candidate_urls_eq split: if_splits)
next
  case False
  with assms show ?thesis
    by (auto simp: build_candidate_urls_eq split: if_splits)
qed

lemma for_url_response:
  assumes "i < length urls" "get (urls ! i) = Inr resp" "\<forall>j<i. isl (get (urls ! j))"
  shows "for_url get d urls last_exc =
           (take (Suc i) urls,
            Returned (make_outcome d (classify_response resp (used_scheme_of (urls ! i)))))"
  using assms
proof (induction urls arbitrary: i last_exc)
  case Nil
  then show ?case by simp
next
  case (Cons u us)
  show ?case
  proof (cases i)
    case 0
    with Cons.prems show ?thesis by simp
  next
    case (Suc k)
    with Cons.prems have "isl (get u)" by auto
    then obtain exc where exc: "get u = Inl exc" by (cases "get u") auto
    have "for_url get d us (Some exc) =
            (take (Suc k) us,
             Returned (make_outcome d (classify_response resp (used_scheme_of (us ! k)))))"
      using Cons.prems Suc by (intro Cons.IH) auto
    with exc Suc show ?thesis by simp
  qed
qed

lemma for_url_all_fail:
  assumes "\<forall>u \<in> set urls. isl (get u)"
  shows "for_url get d urls last_exc =
           (urls, Exhausted (if urls = [] then last_exc else Some (projl (get (last urls)))))"
  using assms
proof (induction urls arbitrary: last_exc)
  case Nil
  then show ?case by simp
next
  case (Cons u us)
  then obtain exc where exc: "get u = Inl exc" by (cases "get u") auto
  with Cons show ?case by simp
qed

lemma for_url_exhausted:
  assumes "for_url get d urls last_exc = (reqs, Exhausted e)" "urls \<noteq> [] \<or> last_exc \<noteq> None"
  shows "e \<noteq> None"
  using assms
proof (induction urls arbitrary: last_exc reqs)
  case Nil
  then show ?case by simp
next
  case (Cons u us)
  show ?case
  proof (cases "get u")
    case (Inl exc)
    with Cons.prems(1) obtain reqs' where "for_url get d us (Some exc) = (reqs', Exhausted e)"
      by (auto split: prod.splits)
    then show ?thesis by (rule Cons.IH) simp
  next
    case (Inr resp)
    with Cons.prems(1) show ?thesis by simp
  qed
qed

lemma for_url_requests:
  assumes "for_url get d urls last_exc = (reqs, ex)"
  shows "prefix reqs urls \<and> (urls \<noteq> [] \<longrightarrow> reqs \<noteq> []) \<and> (\<forall>out. ex = Returned out \<longrightarrow> domain out = d)"
  using assms
proof (induction urls arbitrary: last_exc reqs)
  case Nil
  then show ?case by auto
next
  case (Cons u us)
  show ?case
  proof (cases "get u")
    case (Inl exc)
    with Cons.prems obtain reqs' where r: "for_url get d us (Some exc) = (reqs', ex)" "reqs = u # reqs'"
      by (auto split: prod.splits)
    from Cons.IH [OF r(1)] r(2) show ?thesis by simp
  next
    case (Inr resp)
    with Cons.prems show ?thesis
      by (auto simp: make_outcome_def split: prod.splits)
  qed
qed

lemma candidates_of_stripped:
  assumes "strip d \<noteq> []"
  obtains urls where "build_candidate_urls (strip d) = Inr urls" "length urls = 1 \<or> length urls = 2"
  using assms by (simp add: build_candidate_urls_eq strip_strip)

lemma skipped_strip: "skipped (strip d) = skipped d"
  by (simp add: skipped_def strip_strip)

lemma check_one_domain_skipped:
  "skipped d \<Longrightarrow> check_one_domain get d = Inr ([], None)"
  by (auto simp: check_one_domain_def skipped_def Let_def)

lemma check_one_domain_unfold:
  assumes "\<not> skipped d" "build_candidate_urls (strip d) = Inr urls"
  shows "check_one_domain get d =
           (case for_url get (strip d) urls None of
              (reqs, Returned out) \<Rightarrow> Inr (reqs, Some out)
            | (reqs, Exhausted last_exc) \<Rightarrow>
                Inr (reqs, Some (make_outcome (strip d) (classify_transport_error last_exc))))"
  using assms by (simp add: check_one_domain_def skipped_def Let_def)

lemma domain_make_outcome: "domain (make_outcome d c) = d"
  by (cases c) (simp add: make_outcome_def)

lemma check_one_domain_probed:
  assumes "\<not> skipped d"
  obtains reqs out where "check_one_domain get d = Inr (reqs, Some out)"
    "domain out = strip d" "reqs \<noteq> []" "length reqs \<le> 2"
proof -
  from assms have "strip d \<noteq> []" by (simp add: skipped_def)
  then obtain urls where urls: "build_candidate_urls (strip d) = Inr urls"
    "length urls = 1 \<or> length urls = 2"
    by (rule candidates_of_stripped)
  obtain reqs ex where f: "for_url get (strip d) urls None = (reqs, ex)"
    by (cases "for_url get (strip d) urls None")
  from for_url_requests [OF f] urls(2)
  have r: "prefix reqs urls" "reqs \<noteq> []" "\<forall>out. ex = Returned out \<longrightarrow> domain out = strip d"
    by auto
  from r(1) urls(2) have l: "length reqs \<le> 2"
    by (auto dest: prefix_length_le)
  show thesis
  proof (cases ex)
    case (Returned out)
    with f r l assms urls(1) show ?thesis
      by (intro that [of reqs out]) (simp_all add: check_one_domain_unfold)
  next
    case (Exhausted e)
    with f r l assms urls(1) show ?thesis
      by (intro that [of reqs "make_outcome (strip d) (classify_transport_error e)"])
        (simp_all add: check_one_domain_unfold domain_make_outcome)
  qed
qed

text \<open>
  Claim C1. For a domain that is not skipped, with \<open>urls\<close> its candidates: when the
  request for candidate \<open>i\<close> is the first that returns a response, whatever its status,
  the requests issued are exactly the candidates up to \<open>i\<close>, in order, and the outcome
  is the classification of that response; when every request raises, all candidates
  were requested in order and the outcome is the classification of the exception of
  the last one.
\<close>

theorem probe_in_order:
  assumes "\<not> skipped d"
  shows "\<exists>urls. build_candidate_urls (strip d) = Inr urls \<and>
     (\<forall>i resp. i < length urls \<and> get (urls ! i) = Inr resp \<and> (\<forall>j<i. isl (get (urls ! j))) \<longrightarrow>
        check_one_domain get d =
          Inr (take (Suc i) urls,
               Some (make_outcome (strip d) (classify_response resp (used_scheme_of (urls ! i)))))) \<and>
     ((\<forall>j<length urls. isl (get (urls ! j))) \<longrightarrow>
        check_one_domain get d =
          Inr (urls, Some (make_outcome (strip d)
                 (classify_transport_error (Some (projl (get (last urls))))))))"
proof -
  from assms have "strip d \<noteq> []" by (simp add: skipped_def)
  then obtain urls where urls: "build_candidate_urls (strip d) = Inr urls"
    "length urls = 1 \<or> length urls = 2"
    by (rule candidates_of_stripped)
  then have ne: "urls \<noteq> []" by auto
  have "check_one_domain get d =
          Inr (take (Suc i) urls,
               Some (make_outcome (strip d) (classify_response resp (used_scheme_of (urls ! i)))))"
    if "i < length urls" "get (urls ! i) = Inr resp" "\<forall>j<i. isl (get (urls ! j))" for i resp
    using that assms urls(1)
    by (simp add: check_one_domain_unfold for_url_response)
  moreover have "check_one_domain get d =
          Inr (urls, Some (make_outcome (strip d)
                 (classify_transport_error (Some (projl (get (last urls)))))))"
    if "\<forall>j<length urls. isl (get (urls ! j))"
  proof -
    from that have "\<forall>u \<in> set urls. isl (get u)"
      by (auto simp: in_set_conv_nth)
    then show ?thesis
      using assms urls(1) ne by (simp add: check_one_domain_unfold for_url_all_fail)
  qed
  ultimately show ?thesis using urls(1) by blast
qed

lemma strip_b_test_sp: "strip '' b.test '' = ''b.test''"
  by (simp add: strip_def isspace_def)

lemma not_skipped_b_test: "\<not> skipped '' b.test ''"
  by (simp add: skipped_def strip_b_test_sp)

lemma candidates_b_test:
  "build_candidate_urls ''b.test'' = Inr [''https://b.test'', ''http://b.test'']"
  by code_simp

lemma http_only_https: "http_only ''https://b.test'' = Inl (Exn ''[SSL: CERTIFICATE_VERIFY_FAILED]'')"
  by (simp add: http_only_def)

lemma http_only_http:
  "http_only ''http://b.test'' =
     Inr \<lparr>status_code = 404, resp_url = ''http://b.test/'', resp_text = Inr ''Not Found''\<rparr>"
  by (simp add: http_only_def)

lemma scheme_http: "used_scheme_of ''http://b.test'' = ''http''"
  by code_simp

lemma scheme_https: "used_scheme_of ''https://b.test'' = ''https''"
  by code_simp

lemma classify_not_found:
  "classify_response \<lparr>status_code = 404, resp_url = ''http://b.test/'', resp_text = Inr ''Not Found''\<rparr> ''http'' =
     (''ERROR_TIDAK_BISA_DIBUKA'', Some 404, Some ''http://b.test/'', ''http_404 (http)'')"
  by code_simp

lemma classify_error_page:
  "classify_response \<lparr>status_code = 500, resp_url = ''https://b.test/'',
       resp_text = Inr ''Internal Server Error''\<rparr> ''https'' =
     (''ERROR_TIDAK_BISA_DIBUKA'', Some 500, Some ''https://b.test/'', ''http_500 (https)'')"
  by code_simp

lemma classify_refused:
  "classify_transport_error (Some (Exn ''All connection attempts failed'')) =
     (''ERROR_TIDAK_BISA_DIBUKA'', None, None, ''all connection attempts failed'')"
  by code_simp

theorem probe_in_order_witness:
  "check_one_domain error_page '' b.test '' =
     Inr ([''https://b.test''],
          Some \<lparr>domain = ''b.test'', status = ''ERROR_TIDAK_BISA_DIBUKA'', http_status = Some 500,
                final_url = Some ''https://b.test/'', out_notes = ''http_500 (https)''\<rparr>) \<and>
   check_one_domain http_only '' b.test '' =
     Inr ([''https://b.test'', ''http://b.test''],
          Some \<lparr>domain = ''b.test'', status = ''ERROR_TIDAK_BISA_DIBUKA'', http_status = Some 404,
                final_url = Some ''http://b.test/'', out_notes = ''http_404 (http)''\<rparr>) \<and>
   check_one_domain refusing '' b.test '' =
     Inr ([''https://b.test'', ''http://b.test''],
          Some \<lparr>domain = ''b.test'', status = ''ERROR_TIDAK_BISA_DIBUKA'', http_status = None,
                final_url = None, out_notes = ''all connection attempts failed''\<rparr>)"
proof -
  have a: "check_one_domain error_page '' b.test '' =
     Inr ([''https://b.test''],
          Some \<lparr>domain = ''b.test'', status = ''ERROR_TIDAK_BISA_DIBUKA'', http_status = Some 500,
                final_url = Some ''https://b.test/'', out_notes = ''http_500 (https)''\<rparr>)"
  proof -
    from probe_in_order [OF not_skipped_b_test, of error_page]
    have "\<forall>i resp. i < length [''https://b.test'', ''http://b.test''] \<and>
            error_page ([''https://b.test'', ''http://b.test''] ! i) = Inr resp \<and>
            (\<forall>j<i. isl (error_page ([''https://b.test'', ''http://b.test''] ! j))) \<longrightarrow>
            check_one_domain error_page '' b.test '' =
              Inr (take (Suc i) [''https://b.test'', ''http://b.test''],
                   Some (make_outcome ''b.test''
                     (classify_response resp (used_scheme_of ([''https://b.test'', ''http://b.test''] ! i)))))"
      by (simp add: strip_b_test_sp candidates_b_test)
    from this [rule_format, of 0
        "\<lparr>status_code = 500, resp_url = ''https://b.test/'', resp_text = Inr ''Internal Server Error''\<rparr>"]
    show ?thesis
      by (simp add: error_page_def scheme_https classify_error_page make_outcome_def)
  qed
  have b: "check_one_domain http_only '' b.test '' =
     Inr ([''https://b.test'', ''http://b.test''],
          Some \<lparr>domain = ''b.test'', status = ''ERROR_TIDAK_BISA_DIBUKA'', http_status = Some 404,
                final_url = Some ''http://b.test/'', out_notes = ''http_404 (http)''\<rparr>)"
  proof -
    from probe_in_order [OF not_skipped_b_test, of http_only]
    have "\<forall>i resp. i < length [''https://b.test'', ''http://b.test''] \<and>
            http_only ([''https://b.test'', ''http://b.test''] ! i) = Inr resp \<and>
            (\<forall>j<i. isl (http_only ([''https://b.test'', ''http://b.test''] ! j))) \<longrightarrow>
            check_one_domain http_only '' b.test '' =
              Inr (take (Suc i) [''https://b.test'', ''http://b.test''],
                   Some (make_outcome ''b.test''
                     (classify_response resp (used_scheme_of ([''https://b.test'', ''http://b.test''] ! i)))))"
      by (simp add: strip_b_test_sp candidates_b_test)
    from this [rule_format, of 1
        "\<lparr>status_code = 404, resp_url = ''http://b.test/'', resp_text = Inr ''Not Found''\<rparr>"]
    show ?thesis
      by (simp add: http_only_https http_only_http scheme_http classify_not_found make_outcome_def)
  qed
  have c: "check_one_domain refusing '' b.test '' =
     Inr ([''https://b.test'', ''http://b.test''],
          Some \<lparr>domain = ''b.test'', status = ''ERROR_TIDAK_BISA_DIBUKA'', http_status = None,
                final_url = None, out_notes = ''all connection attempts failed''\<rparr>)"
  proof -
    from probe_in_order [OF not_skipped_b_test, of refusing]
    have "(\<forall>j<length [''https://b.test'', ''http://b.test''].
             isl (refusing ([''https://b.test'', ''http://b.test''] ! j))) \<longrightarrow>
          check_one_domain refusing '' b.test '' =
            Inr ([''https://b.test'', ''http://b.test''],
                 Some (make_outcome ''b.test''
                   (classify_transport_error
                     (Some (projl (refusing (last [''https://b.test'', ''http://b.test''])))))))"
      by (simp add: strip_b_test_sp candidates_b_test)
    then show ?thesis
      by (simp add: refusing_def classify_refused make_outcome_def)
  qed
  from a b c show ?thesis by simp
qed

text \<open>
  Claim C10. For a domain that is not skipped, \<open>build_candidate_urls\<close> returns one or
  two candidates, and whenever the loop over them ends exhausted, at least one request
  was issued and \<open>last_exc\<close> is an exception, not \<open>None\<close>.
\<close>

theorem last_exc_never_None:
  assumes "\<not> skipped d"
  shows "\<exists>urls. build_candidate_urls (strip d) = Inr urls \<and> (length urls = 1 \<or> length urls = 2) \<and>
     (\<forall>get reqs e. for_url get (strip d) urls None = (reqs, Exhausted e) \<longrightarrow>
        reqs \<noteq> [] \<and> e \<noteq> None)"
proof -
  from assms have "strip d \<noteq> []" by (simp add: skipped_def)
  then obtain urls where urls: "build_candidate_urls (strip d) = Inr urls"
    "length urls = 1 \<or> length urls = 2"
    by (rule candidates_of_stripped)
  then have ne: "urls \<noteq> []" by auto
  have "reqs \<noteq> [] \<and> e \<noteq> None"
    if "for_url get (strip d) urls None = (reqs, Exhausted e)" for get reqs e
    using for_url_exhausted [OF that] for_url_requests [OF that] ne by simp
  with urls show ?thesis by blast
qed


lemma for_url_refusing_b_test:
  "for_url refusing ''b.test'' [''https://b.test'', ''http://b.test''] None =
     ([''https://b.test'', ''http://b.test''],
      Exhausted (Some (Exn ''All connection attempts failed'')))"
  by (simp add: refusing_def)

theorem last_exc_never_None_witness:
  "build_candidate_urls (strip '' b.test '') = Inr [''https://b.test'', ''http://b.test''] \<and>
   fst (for_url refusing ''b.test'' [''https://b.test'', ''http://b.test''] None) \<noteq> [] \<and>
   snd (for_url refusing ''b.test'' [''https://b.test'', ''http://b.test''] None) \<noteq> Exhausted None"
proof -
  from last_exc_never_None [OF not_skipped_b_test]
  have "\<forall>get reqs e.
          for_url get ''b.test'' [''https://b.test'', ''http://b.test''] None = (reqs, Exhausted e) \<longrightarrow>
          reqs \<noteq> [] \<and> e \<noteq> None"
    by (simp add: strip_b_test_sp candidates_b_test)
  from this [rule_format, OF for_url_refusing_b_test] show ?thesis
    unfolding for_url_refusing_b_test strip_b_test_sp candidates_b_test by simp
qed

section \<open>The run over the list\<close>

lemma gather_results:
  "\<exists>log results. gather get ds = Inr (log, results) \<and> map fst log = ds \<and>
     map domain results = map strip (filter (\<lambda>d. \<not> skipped d) ds) \<and>
     list_all (\<lambda>(d, reqs). if skipped d then reqs = [] else reqs \<noteq> [] \<and> length reqs \<le> 2) log"
proof (induction ds)
  case Nil
  then show ?case by simp
next
  case (Cons d ds)
  then obtain log results where IH: "gather get ds = Inr (log, results)" "map fst log = ds"
    "map domain results = map strip (filter (\<lambda>d. \<not> skipped d) ds)"
    "list_all (\<lambda>(d, reqs). if skipped d then reqs = [] else reqs \<noteq> [] \<and> length reqs \<le> 2) log"
    by blast
  show ?case
  proof (cases "skipped d")
    case True
    with IH show ?thesis
      by (simp add: check_one_domain_skipped)
  next
    case False
    then obtain reqs out where "check_one_domain get d = Inr (reqs, Some out)"
      "domain out = strip d" "reqs \<noteq> []" "length reqs \<le> 2"
      by (rule check_one_domain_probed)
    with IH False show ?thesis by simp
  qed
qed

lemma filter_read_domains:
  "map strip (filter (\<lambda>d. \<not> skipped d) (read_domains lines)) =
     map strip (filter (\<lambda>l. \<not> skipped l) lines)"
proof -
  have "(strip l \<noteq> [] \<and> \<not> skipped l) = (\<not> skipped l)" for l
    by (auto simp: skipped_def)
  then show ?thesis
    by (simp add: read_domains_def filter_map o_def skipped_strip strip_strip)
qed

text \<open>
  Claim C7, amended. For every list of lines \<open>run\<close> returns; it starts one worker for
  each line that is not empty after trimming; a worker for a skipped line (empty, white
  space only, or starting with \<open>#\<close> after trimming) issues no request and gives no
  outcome, a worker for any other line issues one or two requests and gives exactly one
  outcome, whose domain is the trimmed line; so the domains of the outcomes are, as a
  multiset, the trimmed lines that are not skipped, and there is at most one outcome per
  domain exactly when these are pairwise distinct.
\<close>

theorem run_outcomes:
  "\<exists>log results. run get lines = Inr (log, results) \<and>
     map fst log = read_domains lines \<and>
     list_all (\<lambda>(d, reqs). if skipped d then reqs = [] else reqs \<noteq> [] \<and> length reqs \<le> 2) log \<and>
     mset (map domain results) = mset (map strip (filter (\<lambda>l. \<not> skipped l) lines)) \<and>
     length results = length (filter (\<lambda>l. \<not> skipped l) lines) \<and>
     (distinct (map domain results) \<longleftrightarrow> distinct (map strip (filter (\<lambda>l. \<not> skipped l) lines)))"
proof -
  from gather_results [of get "read_domains lines"]
  obtain log results where g: "gather get (read_domains lines) = Inr (log, results)"
    "map fst log = read_domains lines"
    "map domain results = map strip (filter (\<lambda>d. \<not> skipped d) (read_domains lines))"
    "list_all (\<lambda>(d, reqs). if skipped d then reqs = [] else reqs \<noteq> [] \<and> length reqs \<le> 2) log"
    by blast
  from g(3) have m: "map domain results = map strip (filter (\<lambda>l. \<not> skipped l) lines)"
    by (simp only: filter_read_domains)
  from m have "length (map domain results) = length (map strip (filter (\<lambda>l. \<not> skipped l) lines))"
    by (rule arg_cong)
  then have l: "length results = length (filter (\<lambda>l. \<not> skipped l) lines)"
    by simp
  from m have ms: "mset (map domain results) = mset (map strip (filter (\<lambda>l. \<not> skipped l) lines))"
    by (rule arg_cong)
  from m have ds: "distinct (map domain results) \<longleftrightarrow>
      distinct (map strip (filter (\<lambda>l. \<not> skipped l) lines))"
    by (rule arg_cong)
  from g(1) have "run get lines = Inr (log, results)"
    by (simp only: run_def)
  with g(2,4) ms l ds show ?thesis
    by blast
qed

lemma kept_filter:
  "filter (\<lambda>l. \<not> skipped l) [''http://a.test'', '''', ''# comment'', ''b.test''] =
     [''http://a.test'', ''b.test'']"
  by (simp add: skipped_def strip_def isspace_def)

lemma kept_strip: "map strip [''http://a.test'', ''b.test''] = [''http://a.test'', ''b.test'']"
  by (simp add: strip_def isspace_def)

theorem run_outcomes_witness:
  "\<exists>log results. run http_only [''http://a.test'', '''', ''# comment'', ''b.test''] = Inr (log, results) \<and>
     mset (map domain results) = mset [''http://a.test'', ''b.test''] \<and>
     length results = 2 \<and> distinct (map domain results)"
  using run_outcomes [of http_only "[''http://a.test'', '''', ''# comment'', ''b.test'']"]
  unfolding kept_filter kept_strip by auto

text \<open>
  Two equal lines: the same domain is probed twice, and the results hold two outcomes
  for it.
\<close>

theorem duplicate_lines_counterexample:
  "run refusing [''a.test'', ''a.test''] =
     Inr ([(''a.test'', [''https://a.test'', ''http://a.test'']),
           (''a.test'', [''https://a.test'', ''http://a.test''])],
          [\<lparr>domain = ''a.test'', status = ''ERROR_TIDAK_BISA_DIBUKA'', http_status = None,
            final_url = None, out_notes = ''all connection attempts failed''\<rparr>,
           \<lparr>domain = ''a.test'', status = ''ERROR_TIDAK_BISA_DIBUKA'', http_status = None,
            final_url = None, out_notes = ''all connection attempts failed''\<rparr>])"
  by code_simp

end
